theory Spec2Isabelle
  imports Complex_Main "HOL-Library.Word"
begin

unbundle bit_operations_syntax

section \<open>JavaScript values\<close>

text \<open>
  A JavaScript string is a sequence of UTF-16 code units; \<open>charCodeAt\<close>, \<open>length\<close>, the
  regular expressions without the \<open>u\<close> flag and \<open>split\<close> all count code units. A string is
  therefore a list of naturals (each below 65536), and \<open>str\<close> writes an ASCII literal.
\<close>

type_synonym jsstring = "nat list"

definition str :: "string \<Rightarrow> jsstring" where
  "str s = map of_char s"

text \<open>
  A JavaScript number is a double. The finite ones are taken as reals (rounding and the sign of
  zero are not modelled); the three special values are kept, since division produces them.
\<close>

datatype jsnum = Fin real | PosInf | NegInf | NaN

text \<open>The operator \<open>/\<close> on numbers: no exception, division by zero gives an infinity or NaN.\<close>

fun js_div :: "jsnum \<Rightarrow> jsnum \<Rightarrow> jsnum" where
  "js_div NaN _ = NaN"
| "js_div _ NaN = NaN"
| "js_div (Fin a) (Fin b) =
     (if b = 0 then (if a = 0 then NaN else if 0 < a then PosInf else NegInf)
      else Fin (a / b))"
| "js_div (Fin a) PosInf = Fin 0"
| "js_div (Fin a) NegInf = Fin 0"
| "js_div PosInf (Fin b) = (if 0 \<le> b then PosInf else NegInf)"
| "js_div NegInf (Fin b) = (if 0 \<le> b then NegInf else PosInf)"
| "js_div PosInf PosInf = NaN"
| "js_div PosInf NegInf = NaN"
| "js_div NegInf PosInf = NaN"
| "js_div NegInf NegInf = NaN"

section \<open>config.js: the timing policy\<close>

text \<open>
  The object \<open>CONFIG\<close>: the \<open>timing\<close> table (an object literal used as a dictionary from the
  stage key to the base duration in milliseconds), the live \<open>speedMultiplier\<close> and the
  visualization settings the data providers read.
\<close>

record config =
  timing :: "(jsstring \<times> real) list"
  speedMultiplier :: jsnum
  embeddingDimensions :: nat
  attentionMaxTokens :: nat
  topKOutputTokens :: nat

definition CONFIG :: config where
  "CONFIG = \<lparr>
     timing = [(str ''tokenDelay'', 100), (str ''layerTransition'', 500),
               (str ''embeddingBuild'', 800), (str ''attentionDraw'', 1000),
               (str ''ffnProcess'', 1200), (str ''outputTokenDelay'', 50)],
     speedMultiplier = Fin 1,
     embeddingDimensions = 8,
     attentionMaxTokens = 12,
     topKOutputTokens = 5 \<rparr>"

text \<open>
  \<open>getTiming(key)\<close> is \<open>CONFIG.timing[key] / CONFIG.speedMultiplier\<close>. Reading a key the table
  does not have gives \<open>undefined\<close> (or, for a name inherited from \<open>Object.prototype\<close>, a
  function or object); the division converts either to NaN. Nothing in the function throws.
\<close>

definition getTiming :: "config \<Rightarrow> jsstring \<Rightarrow> jsnum" where
  "getTiming c key =
     (case map_of (timing c) key of
        None \<Rightarrow> js_div NaN (speedMultiplier c)
      | Some base \<Rightarrow> js_div (Fin base) (speedMultiplier c))"

text \<open>
  \<open>setSpeed(multiplier)\<close> stores its argument in \<open>CONFIG.speedMultiplier\<close> and writes
  \<open>1 / multiplier\<close> to the style property \<open>--speed-multiplier\<close> of the document root. The model
  returns the updated configuration and the value written to the style property.
\<close>

definition setSpeed :: "jsnum \<Rightarrow> config \<Rightarrow> config \<times> jsnum" where
  "setSpeed multiplier c = (c\<lparr>speedMultiplier := multiplier\<rparr>, js_div (Fin 1) multiplier)"

text \<open>A sequence of \<open>setSpeed\<close> calls, in order.\<close>

fun setSpeeds :: "jsnum list \<Rightarrow> config \<Rightarrow> config" where
  "setSpeeds [] c = c"
| "setSpeeds (m # ms) c = setSpeeds ms (fst (setSpeed m c))"

section \<open>tokenizer.js: the tokenizer\<close>

text \<open>The class \<open>[\w']\<close>: ASCII letters, digits, the underscore and the apostrophe.\<close>

definition is_word_char :: "nat \<Rightarrow> bool" where
  "is_word_char c \<longleftrightarrow>
     (65 \<le> c \<and> c \<le> 90) \<or> (97 \<le> c \<and> c \<le> 122) \<or> (48 \<le> c \<and> c \<le> 57) \<or> c = 95 \<or> c = 39"

text \<open>
  The second class: the characters \<open>. , ! ? ; : ' " ( ) [ ] { } -\<close>, the em dash (code unit
  8212) and the en dash (code unit 8211).
\<close>

definition is_punct_char :: "nat \<Rightarrow> bool" where
  "is_punct_char c \<longleftrightarrow>
     c \<in> set (str ''.,!?;:'' @ [39, 34] @ str ''()[]{}'' @ [8212, 8211] @ str ''-'')"

text \<open>
  \<open>text.match(/[\w']+|[...]/g)\<close>: all matches from left to right. At each position the first
  alternative is tried first and is greedy; then the second, one code unit long; a position where
  neither matches is skipped.
\<close>

function match_all :: "jsstring \<Rightarrow> jsstring list" where
  "match_all [] = []"
| "match_all (c # cs) =
     (if is_word_char c
      then (c # takeWhile is_word_char cs) # match_all (dropWhile is_word_char cs)
      else if is_punct_char c then [c] # match_all cs
      else match_all cs)"
  by pat_completeness auto
termination
  by (relation "measure length") (auto simp: length_dropWhile_le le_imp_less_Suc)

definition BOS :: jsstring where "BOS = str ''<BOS>''"
definition EOS :: jsstring where "EOS = str ''<EOS>''"

text \<open>
  \<open>tokenize(text)\<close>: \<open>match\<close> returns null when nothing matches and the code replaces it by the
  empty array, which is what \<open>match_all\<close> returns there. The result is also stored in
  \<open>this.tokens\<close>, which \<open>getTokens()\<close> reads back.
\<close>

definition tokenize :: "jsstring \<Rightarrow> jsstring list" where
  "tokenize text = [BOS] @ match_all text @ [EOS]"

section \<open>The embeddings visualizer\<close>

text \<open>
  \<open>hashToken(token)\<close>: for each code unit, \<open>hash = ((hash << 5) - hash) + char\<close> and then
  \<open>hash = hash & hash\<close>, which converts to a signed 32-bit integer. The shift already works on
  32 bits and the subtraction and addition are exact on doubles of this size, so each round is the
  same arithmetic on a 32-bit word. \<open>Math.abs\<close> of the signed reading is the result (an
  unbounded integer: the absolute value of \<open>-2^31\<close> is \<open>2^31\<close>).
\<close>

definition hash_round :: "nat \<Rightarrow> 32 word \<Rightarrow> 32 word" where
  "hash_round char hash = (let hash = (push_bit 5 hash - hash) + of_nat char in hash AND hash)"

definition hashToken :: "jsstring \<Rightarrow> int" where
  "hashToken token = \<bar>sint (fold hash_round token 0)\<bar>"

record embedding =
  emb_token :: jsstring
  emb_index :: nat
  emb_values :: "real list"

text \<open>
  The value at dimension \<open>i\<close>: \<open>0.1 + 0.9 * ((seed * (i + 1) * 9301 + 49297) % 233280) / 233280\<close>.
  The seed is not negative, so \<open>%\<close> is \<open>mod\<close>.
\<close>

definition embedding_value :: "int \<Rightarrow> nat \<Rightarrow> real" where
  "embedding_value seed i =
     0.1 + 0.9 * real_of_int ((seed * (int i + 1) * 9301 + 49297) mod 233280) / 233280"

text \<open>The state of \<open>EmbeddingsVisualizer\<close> that the generator touches: \<open>this.embeddings\<close>.\<close>

record embeddings_visualizer =
  embeddings :: "embedding list"

text \<open>
  \<open>generateEmbeddings(tokens)\<close> maps every token, with its index, to its embedding object, stores
  the array in \<open>this.embeddings\<close> and returns it.
\<close>

definition generateEmbeddings ::
  "config \<Rightarrow> jsstring list \<Rightarrow> embeddings_visualizer \<Rightarrow> embedding list \<times> embeddings_visualizer" where
  "generateEmbeddings c tokens this =
     (let dims = embeddingDimensions c;
          es = map (\<lambda>(index, token).
                 let seed = hashToken token;
                     values = map (embedding_value seed) [0..<dims]
                 in \<lparr>emb_token = token, emb_index = index, emb_values = values\<rparr>)
               (enumerate 0 tokens)
      in (es, this\<lparr>embeddings := es\<rparr>))"

section \<open>The attention visualizer\<close>

text \<open>
  \<open>Math.random()\<close> is an input of the model: the sequence \<open>rnd\<close> of the numbers it returns, with
  the count \<open>k\<close> of the calls made so far threaded through the loops.

  The inner loop body, for column \<open>j\<close> of row \<open>i\<close>: a weight for \<open>j \<le> i\<close>, zero above the diagonal.
\<close>

definition row_step :: "(nat \<Rightarrow> real) \<Rightarrow> nat \<Rightarrow> nat \<Rightarrow> real list \<times> nat \<Rightarrow> real list \<times> nat" where
  "row_step rnd i j = (\<lambda>(row, k).
     if j \<le> i then
       (let distance = real i - real j;
            baseWeight = exp (- distance * 0.3);
            noise = 0.3 * rnd k
        in (row @ [min 1 (baseWeight + noise)], Suc k))
     else (row @ [0], k))"

text \<open>The entry the loop puts at column \<open>j\<close> of row \<open>i\<close> when \<open>k\<close> calls were made before the row.\<close>

definition cell :: "(nat \<Rightarrow> real) \<Rightarrow> nat \<Rightarrow> nat \<Rightarrow> nat \<Rightarrow> real" where
  "cell rnd k i j =
     (if j \<le> i then min 1 (exp (- (real i - real j) * 0.3) + 0.3 * rnd (k + j)) else 0)"

text \<open>What is to be shown of row \<open>i\<close> of an \<open>n\<close> by \<open>n\<close> matrix.\<close>

definition good_row :: "nat \<Rightarrow> nat \<Rightarrow> real list \<Rightarrow> bool" where
  "good_row n i row \<longleftrightarrow>
     length row = n \<and> (\<forall>j<n. i < j \<longrightarrow> row ! j = 0) \<and> sum_list row = 1"

text \<open>
  The outer loop body, for row \<open>i\<close>: build the row, sum it with \<open>reduce\<close> from 0, divide every
  entry by the sum and push the row.
\<close>

definition weights_step ::
  "(nat \<Rightarrow> real) \<Rightarrow> nat \<Rightarrow> nat \<Rightarrow> real list list \<times> nat \<Rightarrow> real list list \<times> nat" where
  "weights_step rnd n i = (\<lambda>(attentionWeights, k).
     let (row, k') = fold (row_step rnd i) [0..<n] ([], k);
         sum = foldl (+) 0 row
     in (attentionWeights @ [map (\<lambda>w. w / sum) row], k'))"

text \<open>
  \<open>generateAttentionWeights(tokens)\<close>; it also keeps \<open>tokens.slice(0, n)\<close> in \<open>this.tokens\<close> and
  the matrix in \<open>this.attentionWeights\<close>.
\<close>

definition generateAttentionWeights :: "config \<Rightarrow> (nat \<Rightarrow> real) \<Rightarrow> jsstring list \<Rightarrow> real list list" where
  "generateAttentionWeights c rnd tokens =
     (let n = min (length tokens) (attentionMaxTokens c)
      in fst (fold (weights_step rnd n) [0..<n] ([], 0)))"

section \<open>output.js: the output distribution\<close>

record candidate =
  token :: jsstring
  probability :: real
  selected :: bool

definition vocabulary :: "jsstring list" where
  "vocabulary = map str
     [''The'', ''a'', ''is'', ''in'', ''to'', ''and'', ''of'', ''that'', ''for'', ''it'',
      ''with'', ''as'', ''on'', ''be'', ''at'', ''by'', ''this'', ''have'', ''from'', ''or'',
      ''one'', ''all'', ''would'', ''there'', ''their'', ''what'', ''so'', ''up'', ''out'', ''if'',
      ''about'', ''who'', ''get'', ''which'', ''when'', ''make'', ''can'', ''like'', ''time'', ''just'',
      ''life'', ''meaning'', ''purpose'', ''human'', ''question'', ''answer'', ''exist'', ''world'',
      ''think'', ''believe'']"

text \<open>
  \<open>generateDistribution(selectedToken)\<close>, with the one number \<open>r\<close> that \<open>Math.random()\<close> returns
  as an input. A string is truthy when it is not empty. \<open>Array.prototype.sort\<close> is stable; with
  the comparator \<open>b.probability - a.probability\<close> it sorts by the negated probability.
\<close>

definition generateDistribution :: "config \<Rightarrow> real \<Rightarrow> jsstring \<Rightarrow> candidate list" where
  "generateDistribution c r selectedToken =
     (let topK = topKOutputTokens c;
          vocabulary =
            (if selectedToken \<noteq> [] \<and> selectedToken \<notin> set vocabulary
             then vocabulary[0 := selectedToken] else vocabulary);
          (probs, remaining) =
            (if selectedToken \<noteq> [] then
               (let selectedProb = 0.3 + r * 0.3
                in ([\<lparr>token = selectedToken, probability = selectedProb, selected = True\<rparr>],
                    1.0 - selectedProb))
             else ([], 1.0));
          otherTokens = filter (\<lambda>t. t \<noteq> selectedToken) vocabulary;
          probs = probs @
            map (\<lambda>i. \<lparr>token = otherTokens ! i, probability = remaining * 0.5 ^ (i + 1),
                      selected = False\<rparr>)
              [0..<min (topK - 1) (length otherTokens)]
      in sort_key (\<lambda>e. - probability e) probs)"

section \<open>output.js: the streaming client\<close>

subsection \<open>Strings, JSON values and errors\<close>

text \<open>\<open>buffer.split('\n')\<close>: the pieces between line feeds (code unit 10), at least one piece.\<close>

fun split_nl :: "jsstring \<Rightarrow> jsstring list" where
  "split_nl [] = [[]]"
| "split_nl (c # cs) =
     (if c = 10 then [] # split_nl cs
      else (case split_nl cs of [] \<Rightarrow> [[c]] | l # ls \<Rightarrow> (c # l) # ls))"

text \<open>The white space and line terminators that \<open>trim()\<close> removes from both ends.\<close>

definition is_js_space :: "nat \<Rightarrow> bool" where
  "is_js_space c \<longleftrightarrow>
     c \<in> {9, 10, 11, 12, 13, 32, 160, 5760, 8232, 8233, 8239, 8287, 12288, 65279}
     \<or> (8192 \<le> c \<and> c \<le> 8202)"

definition trim :: "jsstring \<Rightarrow> jsstring" where
  "trim s = rev (dropWhile is_js_space (rev (dropWhile is_js_space s)))"

text \<open>The decimal digits of a number, as a template literal prints a non-negative integer.\<close>

function digits :: "nat \<Rightarrow> jsstring" where
  "digits n = (if n < 10 then [48 + n] else digits (n div 10) @ [48 + n mod 10])"
  by pat_completeness auto
termination
  by (relation "measure id") auto

text \<open>
  The values \<open>JSON.parse\<close> returns. An object is the list of its properties, each key once.
  \<open>undefined\<close> is \<open>None\<close> of \<open>json option\<close>.
\<close>

datatype json =
  JNull | JBool bool | JNum jsnum | JStr jsstring | JArr "json list" | JObj "(jsstring \<times> json) list"

text \<open>An exception value: an \<open>Error\<close> object with its message.\<close>

datatype js_error = JsError (message: jsstring)

text \<open>
  Reading one of the properties \<open>choices\<close>, \<open>delta\<close>, \<open>content\<close> of a value that is neither null
  nor undefined: only an object can have them. Reading index 0: of an array, a string or an object.
\<close>

fun js_member :: "json \<Rightarrow> jsstring \<Rightarrow> json option" where
  "js_member (JObj kvs) key = map_of kvs key"
| "js_member _ key = None"

fun js_index0 :: "json \<Rightarrow> json option" where
  "js_index0 (JArr xs) = (case xs of [] \<Rightarrow> None | x # _ \<Rightarrow> Some x)"
| "js_index0 (JStr s) = (case s of [] \<Rightarrow> None | c # _ \<Rightarrow> Some (JStr [c]))"
| "js_index0 (JObj kvs) = map_of kvs (str ''0'')"
| "js_index0 _ = None"

text \<open>Optional chaining \<open>v?.p\<close>: undefined when \<open>v\<close> is undefined or null.\<close>

fun opt_chain :: "json option \<Rightarrow> (json \<Rightarrow> json option) \<Rightarrow> json option" where
  "opt_chain None f = None"
| "opt_chain (Some JNull) f = None"
| "opt_chain (Some v) f = f v"

fun truthy :: "json option \<Rightarrow> bool" where
  "truthy None = False"
| "truthy (Some JNull) = False"
| "truthy (Some (JBool b)) = b"
| "truthy (Some (JNum n)) = (n \<noteq> Fin 0 \<and> n \<noteq> NaN)"
| "truthy (Some (JStr s)) = (s \<noteq> [])"
| "truthy (Some (JArr xs)) = True"
| "truthy (Some (JObj kvs)) = True"

subsection \<open>The transport\<close>

text \<open>
  What the network does is an input of the model. Every awaited operation is taken to settle: the
  body is a finite sequence of decoded chunks closed either by the reader reporting \<open>done\<close> or by
  a read that rejects. \<open>fetch\<close> itself rejects, or gives a response that is not ok (with its status
  and the outcome of \<open>response.text()\<close>), or an ok response whose \<open>body\<close> is null (so that
  \<open>getReader\<close> throws), or an ok response with a body.
\<close>

datatype body = EndOfStream | ReadFails js_error | Chunk jsstring body

datatype response =
  Rejected js_error
| NotOk nat "js_error + jsstring"
| OkNoBody js_error
| OkBody body

subsection \<open>Callbacks\<close>

text \<open>
  A callback runs on the caller's state \<open>'s\<close> and either returns or throws, with the state as it
  left it. The client's calls are logged, in order, as events next to that state.
\<close>

datatype 's outcome = Returns 's | Throws js_error 's

datatype event = TokenEv json | CompleteEv | ErrorEv js_error

fun is_terminal :: "event \<Rightarrow> bool" where
  "is_terminal (TokenEv v) = False"
| "is_terminal CompleteEv = True"
| "is_terminal (ErrorEv e) = True"

text \<open>How a block of statements ends: it falls through, returns from the function, or throws.\<close>

datatype 's flow = Continue 's | Return 's | Raise js_error 's

text \<open>
  The call \<open>onComplete()\<close> and what follows it where it stands: \<open>return\<close> when it returns, the
  exception when it throws.
\<close>

definition call_onComplete :: "('s \<Rightarrow> 's outcome) \<Rightarrow> event list \<times> 's \<Rightarrow> (event list \<times> 's) flow" where
  "call_onComplete onComplete = (\<lambda>(tr, s).
     case onComplete s of
       Returns s' \<Rightarrow> Return (tr @ [CompleteEv], s')
     | Throws e s' \<Rightarrow> Raise e (tr @ [CompleteEv], s'))"

subsection \<open>streamCompletion\<close>

text \<open>
  The inner \<open>try\<close> block on the text \<open>data\<close> of a data line. \<open>JSON.parse\<close> (the parameter
  \<open>parse\<close>, \<open>None\<close> when it throws) and the property read on \<open>null\<close> throw; \<open>onToken\<close> may
  throw; the \<open>catch\<close> swallows all of them.
\<close>

definition delta_content :: "json \<Rightarrow> json option" where
  "delta_content parsed =
     (let delta = opt_chain (opt_chain (js_member parsed (str ''choices'')) js_index0)
                    (\<lambda>v. js_member v (str ''delta''))
      in opt_chain delta (\<lambda>v. js_member v (str ''content'')))"

definition try_token ::
  "(jsstring \<Rightarrow> json option) \<Rightarrow> (json \<Rightarrow> 's \<Rightarrow> 's outcome) \<Rightarrow> jsstring \<Rightarrow>
   event list \<times> 's \<Rightarrow> event list \<times> 's" where
  "try_token parse onToken data = (\<lambda>(tr, s).
     case parse data of
       None \<Rightarrow> (tr, s)
     | Some JNull \<Rightarrow> (tr, s)
     | Some parsed \<Rightarrow>
         (case delta_content parsed of
            None \<Rightarrow> (tr, s)
          | Some content \<Rightarrow>
              (if truthy (Some content) then
                 (case onToken content s of
                    Returns s' \<Rightarrow> (tr @ [TokenEv content], s')
                  | Throws e s' \<Rightarrow> (tr @ [TokenEv content], s'))
               else (tr, s))))"

text \<open>The body of the \<open>for\<close> loop for one line.\<close>

definition process_line ::
  "(jsstring \<Rightarrow> json option) \<Rightarrow> (json \<Rightarrow> 's \<Rightarrow> 's outcome) \<Rightarrow> ('s \<Rightarrow> 's outcome) \<Rightarrow> jsstring \<Rightarrow>
   event list \<times> 's \<Rightarrow> (event list \<times> 's) flow" where
  "process_line parse onToken onComplete line st =
     (if take 6 line = str ''data: '' then
        (let data = trim (drop 6 line)
         in if data = str ''[DONE]'' then call_onComplete onComplete st
            else Continue (try_token parse onToken data st))
      else Continue st)"

fun process_lines ::
  "(jsstring \<Rightarrow> json option) \<Rightarrow> (json \<Rightarrow> 's \<Rightarrow> 's outcome) \<Rightarrow> ('s \<Rightarrow> 's outcome) \<Rightarrow> jsstring list \<Rightarrow>
   event list \<times> 's \<Rightarrow> (event list \<times> 's) flow" where
  "process_lines parse onToken onComplete [] st = Continue st"
| "process_lines parse onToken onComplete (line # lines) st =
     (case process_line parse onToken onComplete line st of
        Continue st' \<Rightarrow> process_lines parse onToken onComplete lines st'
      | Return st' \<Rightarrow> Return st'
      | Raise e st' \<Rightarrow> Raise e st')"

text \<open>
  The \<open>while (true)\<close> loop with the call of \<open>onComplete\<close> that follows it: one round per read.
  \<open>lines.pop()\<close> takes the last piece off, which becomes the new buffer.
\<close>

fun read_loop ::
  "(jsstring \<Rightarrow> json option) \<Rightarrow> (json \<Rightarrow> 's \<Rightarrow> 's outcome) \<Rightarrow> ('s \<Rightarrow> 's outcome) \<Rightarrow> body \<Rightarrow> jsstring \<Rightarrow>
   event list \<times> 's \<Rightarrow> (event list \<times> 's) flow" where
  "read_loop parse onToken onComplete EndOfStream buffer st = call_onComplete onComplete st"
| "read_loop parse onToken onComplete (ReadFails e) buffer st = Raise e st"
| "read_loop parse onToken onComplete (Chunk value rest) buffer st =
     (let buffer = buffer @ value;
          lines = split_nl buffer;
          buffer = last lines;
          lines = butlast lines
      in case process_lines parse onToken onComplete lines st of
           Continue st' \<Rightarrow> read_loop parse onToken onComplete rest buffer st'
         | Return st' \<Rightarrow> Return st'
         | Raise e st' \<Rightarrow> Raise e st')"

text \<open>The \<open>try\<close> block of \<open>streamCompletion\<close>.\<close>

definition stream_try ::
  "(jsstring \<Rightarrow> json option) \<Rightarrow> (json \<Rightarrow> 's \<Rightarrow> 's outcome) \<Rightarrow> ('s \<Rightarrow> 's outcome) \<Rightarrow> response \<Rightarrow>
   event list \<times> 's \<Rightarrow> (event list \<times> 's) flow" where
  "stream_try parse onToken onComplete resp st =
     (case resp of
        Rejected e \<Rightarrow> Raise e st
      | NotOk status text \<Rightarrow>
          (case text of
             Inl e \<Rightarrow> Raise e st
           | Inr errorText \<Rightarrow>
               Raise (JsError (str ''API Error: '' @ digits status @ str '' - '' @ errorText)) st)
      | OkNoBody e \<Rightarrow> Raise e st
      | OkBody b \<Rightarrow> read_loop parse onToken onComplete b [] st)"

text \<open>
  \<open>streamCompletion\<close>: the \<open>try\<close> block, and in the \<open>catch\<close> the call of \<open>onError\<close>. The result is
  the log of the callbacks called and the outcome of the returned promise (rejected when
  \<open>onError\<close> throws).
\<close>

definition streamCompletion ::
  "(jsstring \<Rightarrow> json option) \<Rightarrow> (json \<Rightarrow> 's \<Rightarrow> 's outcome) \<Rightarrow> ('s \<Rightarrow> 's outcome) \<Rightarrow>
   (js_error \<Rightarrow> 's \<Rightarrow> 's outcome) \<Rightarrow> response \<Rightarrow> 's \<Rightarrow> event list \<times> 's outcome" where
  "streamCompletion parse onToken onComplete onError resp s =
     (case stream_try parse onToken onComplete resp ([], s) of
        Continue (tr, s') \<Rightarrow> (tr, Returns s')
      | Return (tr, s') \<Rightarrow> (tr, Returns s')
      | Raise e (tr, s') \<Rightarrow> (tr @ [ErrorEv e], onError e s'))"

subsection \<open>What the client does, read off the response\<close>

text \<open>
  Everything received before the stream ends or a read fails, the error of the failing read, and
  the complete lines of a text (the pieces before its last line feed).
\<close>

fun received :: "body \<Rightarrow> jsstring" where
  "received EndOfStream = []"
| "received (ReadFails e) = []"
| "received (Chunk value rest) = value @ received rest"

fun read_error :: "body \<Rightarrow> js_error option" where
  "read_error EndOfStream = None"
| "read_error (ReadFails e) = Some e"
| "read_error (Chunk value rest) = read_error rest"

definition complete_lines :: "jsstring \<Rightarrow> jsstring list" where
  "complete_lines text = butlast (split_nl text)"

text \<open>
  The sentinel line, the lines before the first sentinel, and the argument the client passes to
  \<open>onToken\<close> for a line, if it calls it.
\<close>

definition is_sentinel :: "jsstring \<Rightarrow> bool" where
  "is_sentinel line \<longleftrightarrow> take 6 line = str ''data: '' \<and> trim (drop 6 line) = str ''[DONE]''"

definition has_done :: "jsstring list \<Rightarrow> bool" where
  "has_done lines = list_ex is_sentinel lines"

definition lines_until_done :: "jsstring list \<Rightarrow> jsstring list" where
  "lines_until_done lines = takeWhile (\<lambda>line. \<not> is_sentinel line) lines"

definition data_token :: "(jsstring \<Rightarrow> json option) \<Rightarrow> jsstring \<Rightarrow> json option" where
  "data_token parse data =
     (case parse data of
        None \<Rightarrow> None
      | Some parsed \<Rightarrow> if truthy (delta_content parsed) then delta_content parsed else None)"

definition line_token :: "(jsstring \<Rightarrow> json option) \<Rightarrow> jsstring \<Rightarrow> json option" where
  "line_token parse line =
     (if take 6 line = str ''data: '' then data_token parse (trim (drop 6 line)) else None)"

definition tokens_of :: "(jsstring \<Rightarrow> json option) \<Rightarrow> jsstring list \<Rightarrow> json list" where
  "tokens_of parse lines = List.map_filter (line_token parse) lines"

text \<open>
  The tokens the client hands to \<open>onToken\<close> for a response, and the error it throws inside its
  \<open>try\<close> block (\<open>None\<close> when it reaches a call of \<open>onComplete\<close> instead): one pass over the
  complete lines of the whole text, up to the first sentinel.
\<close>

fun stream_result :: "(jsstring \<Rightarrow> json option) \<Rightarrow> response \<Rightarrow> json list \<times> js_error option" where
  "stream_result parse (Rejected e) = ([], Some e)"
| "stream_result parse (NotOk status (Inl e)) = ([], Some e)"
| "stream_result parse (NotOk status (Inr errorText)) =
     ([], Some (JsError (str ''API Error: '' @ digits status @ str '' - '' @ errorText)))"
| "stream_result parse (OkNoBody e) = ([], Some e)"
| "stream_result parse (OkBody b) =
     (let lines = complete_lines (received b)
      in (tokens_of parse (lines_until_done lines),
          if has_done lines then None else read_error b))"

text \<open>The states a caller's state can reach through calls of \<open>onToken\<close> alone.\<close>

fun state_of :: "'s outcome \<Rightarrow> 's" where
  "state_of (Returns s) = s"
| "state_of (Throws e s) = s"

fun returns :: "'s outcome \<Rightarrow> bool" where
  "returns (Returns s) = True"
| "returns (Throws e s) = False"

inductive token_reach :: "(json \<Rightarrow> 's \<Rightarrow> 's outcome) \<Rightarrow> 's \<Rightarrow> 's \<Rightarrow> bool"
  for onToken :: "json \<Rightarrow> 's \<Rightarrow> 's outcome" where
  reach_refl: "token_reach onToken s s"
| reach_step: "token_reach onToken s s' \<Longrightarrow> token_reach onToken s (state_of (onToken v s'))"

text \<open>
  Callbacks that do nothing, to read off the calls the client makes for a response, and a
  completion callback that throws.
\<close>

definition ignore_token :: "json \<Rightarrow> unit \<Rightarrow> unit outcome" where
  "ignore_token v = Returns"

definition ignore_error :: "js_error \<Rightarrow> unit \<Rightarrow> unit outcome" where
  "ignore_error e = Returns"

definition throwing_onComplete :: "unit \<Rightarrow> unit outcome" where
  "throwing_onComplete = Throws (JsError (str ''boom''))"

definition client_events :: "(jsstring \<Rightarrow> json option) \<Rightarrow> response \<Rightarrow> event list" where
  "client_events parse resp = fst (streamCompletion parse ignore_token Returns ignore_error resp ())"

text \<open>
  The body of scenario C, in one chunk, and a stand-in for \<open>JSON.parse\<close> that knows the one
  JSON text of that body.
\<close>

definition hi_json :: jsstring where
  \<open>hi_json = str ''{"choices":[{"delta":{"content":"Hi"}}]}''\<close>

definition hi_parse :: "jsstring \<Rightarrow> json option" where
  "hi_parse data =
     (if data = hi_json then
        Some (JObj [(str ''choices'',
                JArr [JObj [(str ''delta'', JObj [(str ''content'', JStr (str ''Hi''))])]])])
      else None)"

definition scenario_C :: body where
  "scenario_C =
     Chunk (str ''data: '' @ hi_json @ [10, 10] @ str ''data: [DONE]'' @ [10, 10]) EndOfStream"

definition no_sentinel_body :: body where
  "no_sentinel_body =
     Chunk (str ''data: '' @ take 20 hi_json) (Chunk (drop 20 hi_json @ [10]) EndOfStream)"

section \<open>app.js: the orchestrator\<close>

datatype layer = Tokenization | Embeddings | Attention | FFN | Output

datatype status = waiting | active | completed

text \<open>
  What \<open>updateLayerStatus\<close> leaves on a layer's elements: which of the classes \<open>active\<close> and
  \<open>completed\<close> the container has (\<open>waiting\<close> for neither) and the status text.
\<close>

record layer_state =
  layer_class :: status
  status_text :: jsstring

text \<open>
  The state \<open>process\<close> reads and writes: the fields of \<open>App\<close>, the page elements it holds (the
  input's value, the submit button's \<open>disabled\<close>, the response text, the cursor's \<open>active\<close>
  class, the five layers), \<open>TokenizerVisualizer.tokens\<close>, and the calls made to the output
  visualizer (the arguments of \<open>animate\<close>, the number of \<open>quickUpdate\<close> calls).
\<close>

record app =
  isProcessing :: bool
  input_value :: jsstring
  submit_disabled :: bool
  responseOutput :: jsstring
  cursor_active :: bool
  layers :: "layer \<Rightarrow> layer_state"
  tokens :: "jsstring list"
  output_animate_calls :: "jsstring list"
  output_quickUpdate_calls :: nat

fun capitalized :: "status \<Rightarrow> jsstring" where
  "capitalized waiting = str ''Waiting''"
| "capitalized active = str ''Active''"
| "capitalized completed = str ''Completed''"

definition updateLayerStatus :: "layer \<Rightarrow> status \<Rightarrow> jsstring \<Rightarrow> app \<Rightarrow> app" where
  "updateLayerStatus l st text a =
     a\<lparr>layers := (layers a)
          (l := \<lparr>layer_class = st,
                 status_text = (if text \<noteq> [] then text else capitalized st)\<rparr>)\<rparr>"

text \<open>
  \<open>reset()\<close>: every layer back to waiting, the visualizers cleared, the response emptied, the
  cursor hidden, the submit button enabled and the flag cleared.
\<close>

definition reset :: "app \<Rightarrow> app" where
  "reset a =
     (let a = fold (\<lambda>l. updateLayerStatus l waiting (str ''Waiting''))
                [Tokenization, Embeddings, Attention, FFN, Output] a
      in a\<lparr>tokens := [], output_animate_calls := [], output_quickUpdate_calls := 0,
            responseOutput := [], cursor_active := False,
            submit_disabled := False, isProcessing := False\<rparr>)"

text \<open>
  The inputs of one run: whether the promise of each stage animation fulfils or rejects, the
  response of the network, and the built-ins \<open>JSON.parse\<close> and the conversion of a value that
  is not a string to a string. The timers of \<open>delay\<close> always fire.
\<close>

datatype animation = Fulfils | Rejects js_error

record run_inputs =
  tokenizer_animate :: animation
  embeddings_animate :: animation
  attention_animate :: animation
  ffn_animate :: animation
  fetch_response :: response
  JSON_parse :: "jsstring \<Rightarrow> json option"
  ToString :: "json \<Rightarrow> jsstring"

text \<open>\<open>await\<close> on a stage animation, between the two status updates of a stage.\<close>

definition run_stage ::
  "layer \<Rightarrow> jsstring \<Rightarrow> animation \<Rightarrow> (app \<Rightarrow> jsstring) \<Rightarrow> app \<Rightarrow> app outcome" where
  "run_stage l busy anim done a =
     (let a = updateLayerStatus l active busy a
      in case anim of
           Rejects e \<Rightarrow> Throws e a
         | Fulfils \<Rightarrow> Returns (updateLayerStatus l completed (done a) a))"

definition runTokenization :: "run_inputs \<Rightarrow> jsstring \<Rightarrow> app \<Rightarrow> app outcome" where
  "runTokenization inp prompt a =
     (let a = updateLayerStatus Tokenization active (str ''Processing'') a;
          a = a\<lparr>tokens := tokenize prompt\<rparr>
      in case tokenizer_animate inp of
           Rejects e \<Rightarrow> Throws e a
         | Fulfils \<Rightarrow>
             Returns (updateLayerStatus Tokenization completed
                        (digits (length (tokens a)) @ str '' tokens'') a))"

definition runEmbeddings :: "run_inputs \<Rightarrow> app \<Rightarrow> app outcome" where
  "runEmbeddings inp =
     run_stage Embeddings (str ''Encoding'') (embeddings_animate inp) (\<lambda>a. str ''Encoded'')"

definition runAttention :: "run_inputs \<Rightarrow> app \<Rightarrow> app outcome" where
  "runAttention inp =
     run_stage Attention (str ''Computing'') (attention_animate inp) (\<lambda>a. str ''Computed'')"

definition runFFN :: "run_inputs \<Rightarrow> app \<Rightarrow> app outcome" where
  "runFFN inp = run_stage FFN (str ''Processing'') (ffn_animate inp) (\<lambda>a. str ''Processed'')"

text \<open>
  The variables of the closure in \<open>runOutputGeneration\<close>, and the state of the promise it
  returns: pending (\<open>None\<close>), resolved (\<open>Some None\<close>) or rejected with an error. Only the first
  of \<open>resolve\<close> and \<open>reject\<close> settles it.
\<close>

record generation =
  tokenCount :: nat
  firstToken :: bool
  settled :: "js_error option option"

definition settle :: "js_error option \<Rightarrow> generation \<Rightarrow> generation" where
  "settle r g = (if settled g = None then g\<lparr>settled := Some r\<rparr> else g)"

text \<open>
  The three callbacks. \<open>textContent += token\<close> appends the token, converted when it is not a
  string; \<open>token.trim()\<close> throws a TypeError when the token is not a string.
\<close>

definition app_onToken :: "run_inputs \<Rightarrow> json \<Rightarrow> app \<times> generation \<Rightarrow> (app \<times> generation) outcome" where
  "app_onToken inp tok = (\<lambda>(a, g).
     let g = g\<lparr>tokenCount := tokenCount g + 1\<rparr>;
         text = (case tok of JStr t \<Rightarrow> t | _ \<Rightarrow> ToString inp tok);
         a = a\<lparr>responseOutput := responseOutput a @ text\<rparr>
     in if firstToken g then
          (let g = g\<lparr>firstToken := False\<rparr>
           in case tok of
                JStr t \<Rightarrow>
                  Returns (updateLayerStatus Output active (digits (tokenCount g) @ str '' tokens'')
                             (a\<lparr>output_animate_calls := output_animate_calls a @ [trim t]\<rparr>), g)
              | _ \<Rightarrow> Throws (JsError (str ''token.trim is not a function'')) (a, g))
        else
          Returns (updateLayerStatus Output active (digits (tokenCount g) @ str '' tokens'')
                     (a\<lparr>output_quickUpdate_calls := output_quickUpdate_calls a + 1\<rparr>), g))"

definition app_onComplete :: "app \<times> generation \<Rightarrow> (app \<times> generation) outcome" where
  "app_onComplete = (\<lambda>(a, g).
     let a = updateLayerStatus Output completed (digits (tokenCount g) @ str '' tokens'') a;
         a = a\<lparr>cursor_active := False\<rparr>
     in Returns (a, settle None g))"

definition app_onError :: "js_error \<Rightarrow> app \<times> generation \<Rightarrow> (app \<times> generation) outcome" where
  "app_onError error = (\<lambda>(a, g).
     let a = updateLayerStatus Output waiting (str ''Error'') a
     in Returns (a, settle (Some error) g))"

text \<open>
  \<open>runOutputGeneration\<close>: the executor starts the client; awaiting the promise returns, throws the
  error it was rejected with, or never finishes when nothing settled it (\<open>None\<close>).
\<close>

definition runOutputGeneration :: "run_inputs \<Rightarrow> jsstring \<Rightarrow> app \<Rightarrow> app outcome option" where
  "runOutputGeneration inp prompt a =
     (let a = updateLayerStatus Output active (str ''Generating'') a;
          a = a\<lparr>cursor_active := True\<rparr>;
          g = \<lparr>tokenCount = 0, firstToken = True, settled = None\<rparr>;
          (a, g) = (case snd (streamCompletion (JSON_parse inp) (app_onToken inp) app_onComplete
                               app_onError (fetch_response inp) (a, g)) of
                      Returns s \<Rightarrow> s | Throws e s \<Rightarrow> s)
      in case settled g of
           None \<Rightarrow> None
         | Some None \<Rightarrow> Some (Returns a)
         | Some (Some e) \<Rightarrow> Some (Throws e a))"

text \<open>Sequencing inside the \<open>try\<close> block: the next statement runs only when nothing was thrown.\<close>

fun and_then :: "app outcome \<Rightarrow> (app \<Rightarrow> app outcome) \<Rightarrow> app outcome" where
  "and_then (Returns a) f = f a"
| "and_then (Throws e a) f = Throws e a"

definition try_block :: "run_inputs \<Rightarrow> jsstring \<Rightarrow> app \<Rightarrow> app outcome option" where
  "try_block inp prompt a =
     (case and_then (and_then (and_then (runTokenization inp prompt a) (runEmbeddings inp))
                       (runAttention inp)) (runFFN inp) of
        Throws e a' \<Rightarrow> Some (Throws e a')
      | Returns a' \<Rightarrow> runOutputGeneration inp prompt a')"

text \<open>
  \<open>process()\<close>: the two guards, the reset, the \<open>try\<close> block, the \<open>catch\<close> that shows the message
  and the \<open>finally\<close>. \<open>None\<close>: the run never finishes. The network diagram's animation, started
  without being awaited, touches none of this state.
\<close>

definition process :: "run_inputs \<Rightarrow> app \<Rightarrow> app option" where
  "process inp a =
     (if isProcessing a then Some a
      else let prompt = trim (input_value a)
           in if prompt = [] then Some a
              else let a = a\<lparr>isProcessing := True, submit_disabled := True\<rparr>;
                       a = reset a;
                       a = a\<lparr>submit_disabled := True, isProcessing := True\<rparr>
                   in case try_block inp prompt a of
                        None \<Rightarrow> None
                      | Some r \<Rightarrow>
                          (let a = (case r of
                                      Returns a' \<Rightarrow> a'
                                    | Throws error a' \<Rightarrow>
                                        a'\<lparr>responseOutput := str ''Error: '' @ message error\<rparr>)
                           in Some (a\<lparr>isProcessing := False, submit_disabled := False,
                                       cursor_active := False\<rparr>)))"

text \<open>
  The error that a run's stages throw, read off the inputs alone: the first stage animation that
  rejects, or else the error the streaming client hands to \<open>onError\<close>.
\<close>

fun error_event :: "event list \<Rightarrow> js_error option" where
  "error_event [] = None"
| "error_event (ErrorEv e # evs) = Some e"
| "error_event (ev # evs) = error_event evs"

definition stage_error :: "run_inputs \<Rightarrow> js_error option" where
  "stage_error inp =
     (case tokenizer_animate inp of Rejects e \<Rightarrow> Some e | Fulfils \<Rightarrow>
      case embeddings_animate inp of Rejects e \<Rightarrow> Some e | Fulfils \<Rightarrow>
      case attention_animate inp of Rejects e \<Rightarrow> Some e | Fulfils \<Rightarrow>
      case ffn_animate inp of Rejects e \<Rightarrow> Some e | Fulfils \<Rightarrow>
      error_event (client_events (JSON_parse inp) (fetch_response inp)))"

text \<open>An idle page with a prompt typed in, and the inputs of a run in which every animation plays.\<close>

definition idle_app :: app where
  "idle_app = \<lparr>
     isProcessing = False, input_value = str '' Hello, world! '', submit_disabled = False,
     responseOutput = str ''previous answer'', cursor_active = False,
     layers = (\<lambda>l. \<lparr>layer_class = completed, status_text = str ''Processed''\<rparr>),
     tokens = [], output_animate_calls = [], output_quickUpdate_calls = 0 \<rparr>"

definition to_string_stub :: "json \<Rightarrow> jsstring" where
  "to_string_stub v = str ''[object Object]''"

definition run_with :: "response \<Rightarrow> run_inputs" where
  "run_with resp = \<lparr>
     tokenizer_animate = Fulfils, embeddings_animate = Fulfils, attention_animate = Fulfils,
     ffn_animate = Fulfils, fetch_response = resp, JSON_parse = hi_parse,
     ToString = to_string_stub \<rparr>"

section \<open>Properties of the timing policy\<close>

lemma str_simps [simp]: "str [] = []" "str (c # cs) = of_char c # str cs"
  by (simp_all add: str_def)

text \<open>
  Claim C2, as the code has it: for a key of the table, with a finite multiplier other than zero,
  \<open>getTiming\<close> is the base duration divided by the multiplier; for a key the table does not
  have it returns NaN. It raises no error for such a key.
\<close>

theorem getTiming_value:
  "(map_of (timing c) key = Some base \<and> speedMultiplier c = Fin m \<and> m \<noteq> 0 \<longrightarrow>
      getTiming c key = Fin (base / m)) \<and>
   (map_of (timing c) key = None \<longrightarrow> getTiming c key = NaN)"
  by (simp add: getTiming_def)

theorem getTiming_value_witness:
  "map_of (timing CONFIG) (str ''tokenDelay'') = Some 100 \<and> speedMultiplier CONFIG = Fin 1 \<and>
   (1::real) \<noteq> 0 \<and> getTiming CONFIG (str ''tokenDelay'') = Fin (100 / 1) \<and>
   map_of (timing CONFIG) (str ''bogus'') = None \<and> getTiming CONFIG (str ''bogus'') = NaN"
  using getTiming_value [of CONFIG "str ''tokenDelay''" 100 1]
    getTiming_value [of CONFIG "str ''bogus''"]
  by (simp add: CONFIG_def)

text \<open>The stage key \<open>bogus\<close> is not in the table, and the lookup returns NaN for it.\<close>

theorem getTiming_unknown_key_counterexample:
  "map_of (timing CONFIG) (str ''bogus'') = None \<and> getTiming CONFIG (str ''bogus'') = NaN"
  by (simp add: getTiming_def CONFIG_def)

text \<open>
  Claim C3, as the code has it: \<open>setSpeed(m)\<close> stores \<open>m\<close> as the multiplier whatever its sign,
  so after a sequence of calls the multiplier is the argument of the last one (and the value
  before them when there was no call).
\<close>

theorem setSpeed_stores:
  "speedMultiplier (fst (setSpeed m c)) = m \<and>
   speedMultiplier (setSpeeds ms c) = (if ms = [] then speedMultiplier c else last ms)"
proof
  show "speedMultiplier (fst (setSpeed m c)) = m"
    by (simp add: setSpeed_def)
  show "speedMultiplier (setSpeeds ms c) = (if ms = [] then speedMultiplier c else last ms)"
    by (induction ms arbitrary: c) (simp_all add: setSpeed_def)
qed

text \<open>From the default of 1, \<open>setSpeed(0)\<close> and \<open>setSpeed(-1)\<close> change the multiplier.\<close>

theorem setSpeed_nonpositive_counterexample:
  "speedMultiplier CONFIG = Fin 1 \<and>
   speedMultiplier (fst (setSpeed (Fin 0) CONFIG)) = Fin 0 \<and>
   speedMultiplier (fst (setSpeed (Fin (- 1)) CONFIG)) = Fin (- 1) \<and>
   speedMultiplier (setSpeeds [Fin 2, Fin 0] CONFIG) = Fin 0"
  by (simp add: setSpeed_def CONFIG_def)

text \<open>
  Claim C9: from the original multiplier 1, \<open>setSpeed(2)\<close> followed by \<open>setSpeed(1)\<close> leaves
  \<open>getTiming\<close> of every key as it was before the two calls.
\<close>

theorem setSpeed_round_trip:
  "speedMultiplier c = Fin 1 \<Longrightarrow>
   getTiming (fst (setSpeed (Fin 1) (fst (setSpeed (Fin 2) c)))) key = getTiming c key"
  by (simp add: getTiming_def setSpeed_def split: option.splits)

theorem setSpeed_round_trip_witness:
  "speedMultiplier CONFIG = Fin 1 \<and>
   getTiming (fst (setSpeed (Fin 1) (fst (setSpeed (Fin 2) CONFIG)))) (str ''attentionDraw'')
     = getTiming CONFIG (str ''attentionDraw'') \<and>
   getTiming CONFIG (str ''attentionDraw'') = Fin 1000 \<and>
   getTiming (fst (setSpeed (Fin 2) CONFIG)) (str ''attentionDraw'') = Fin 500"
  using setSpeed_round_trip [of CONFIG "str ''attentionDraw''"]
  by (simp add: CONFIG_def getTiming_def setSpeed_def)

section \<open>Properties of the tokenizer\<close>

lemma tokenize_scenario_A:
  "tokenize (str ''Hello, world!'') =
     [str ''<BOS>'', str ''Hello'', str '','', str ''world'', str ''!'', str ''<EOS>'']"
  by (simp add: tokenize_def BOS_def EOS_def is_word_char_def is_punct_char_def)

text \<open>
  Claim C5: for every input string, the empty one included, \<open>tokenize\<close> returns at least two
  tokens, the first \<open><BOS>\<close> and the last \<open><EOS>\<close>.
\<close>

theorem tokenize_sentinels:
  "2 \<le> length (tokenize text) \<and> hd (tokenize text) = str ''<BOS>'' \<and>
   last (tokenize text) = str ''<EOS>''"
  by (simp add: tokenize_def BOS_def EOS_def)

section \<open>Properties of the embeddings\<close>

lemma hashToken_example: "hashToken (str ''Hello'') = 69609650"
  by (simp add: hashToken_def hash_round_def)

text \<open>
  Claim C8: two tokens with the same text get the same hash and the same embedding vector,
  whatever their positions, the other tokens of the two lists and the state the visualizer was
  in before each call; the generator takes no random input.
\<close>

theorem generateEmbeddings_deterministic:
  assumes "i < length ts" and "j < length ts'" and "ts ! i = ts' ! j"
  shows "hashToken (ts ! i) = hashToken (ts' ! j) \<and>
         emb_values (fst (generateEmbeddings c ts v) ! i) =
         emb_values (fst (generateEmbeddings c ts' v') ! j)"
  using assms by (simp add: generateEmbeddings_def Let_def nth_enumerate_eq)

theorem generateEmbeddings_deterministic_witness:
  "(2::nat) < length [str ''a'', str ''b'', str ''a''] \<and> (0::nat) < length [str ''a''] \<and>
   [str ''a'', str ''b'', str ''a''] ! 2 = [str ''a''] ! 0 \<and>
   emb_values (fst (generateEmbeddings CONFIG [str ''a'', str ''b'', str ''a'']
                      \<lparr>embeddings = []\<rparr>) ! 2) =
   emb_values (fst (generateEmbeddings CONFIG [str ''a'']
                      \<lparr>embeddings = [\<lparr>emb_token = [], emb_index = 7, emb_values = [1]\<rparr>]\<rparr>) ! 0)"
  using generateEmbeddings_deterministic [of 2 "[str ''a'', str ''b'', str ''a'']" 0 "[str ''a'']"
      CONFIG "\<lparr>embeddings = []\<rparr>"
      "\<lparr>embeddings = [\<lparr>emb_token = [], emb_index = 7, emb_values = [1]\<rparr>]\<rparr>"]
  by simp

section \<open>Properties of the attention matrix\<close>

lemma row_step_apply:
  "row_step rnd i j (row, k) =
     (if j \<le> i then (row @ [min 1 (exp (- (real i - real j) * 0.3) + 0.3 * rnd k)], Suc k)
      else (row @ [0], k))"
  by (simp only: row_step_def Let_def split_conv)

lemma foldl_plus_sum_list: "foldl (+) a xs = a + sum_list xs" for a :: real
  by (induction xs arbitrary: a) simp_all

lemma sum_list_map_divide: "sum_list (map (\<lambda>w. w / s) xs) = sum_list xs / s" for s :: real
  by (induction xs) (simp_all add: add_divide_distrib)

lemma row_fold:
  "fold (row_step rnd i) [0..<m] ([], k) = (map (cell rnd k i) [0..<m], k + min m (Suc i))"
proof (induction m)
  case 0
  show ?case by simp
next
  case (Suc m)
  have "fold (row_step rnd i) [0..<Suc m] ([], k) =
        row_step rnd i m (map (cell rnd k i) [0..<m], k + min m (Suc i))"
    by (simp add: Suc)
  also have "\<dots> = (map (cell rnd k i) [0..<Suc m], k + min (Suc m) (Suc i))"
    by (simp add: row_step_apply cell_def min_def)
  finally show ?case .
qed

lemma cell_nonneg: "0 \<le> rnd (k + j) \<Longrightarrow> 0 \<le> cell rnd k i j"
  by (simp add: cell_def)

lemma cell_diag: "0 \<le> rnd (k + i) \<Longrightarrow> cell rnd k i i = 1"
  by (simp add: cell_def)

text \<open>The diagonal entry is 1 before normalisation, so the sum of a row is never zero.\<close>

lemma row_sum_pos:
  assumes "\<forall>k. 0 \<le> rnd k" and "i < n"
  shows "1 \<le> sum_list (map (cell rnd k i) [0..<n])"
proof -
  have "sum_list (map (cell rnd k i) [0..<n]) = (\<Sum>j = 0..<n. cell rnd k i j)"
    by (simp add: interv_sum_list_conv_sum_set_nat)
  also have "\<dots> = cell rnd k i i + (\<Sum>j \<in> {0..<n} - {i}. cell rnd k i j)"
    using assms(2) by (simp add: sum.remove)
  also have "\<dots> \<ge> 1 + 0"
    using assms(1) by (intro add_mono sum_nonneg) (simp_all add: cell_diag cell_nonneg)
  finally show ?thesis by simp
qed

lemma weights_step_good:
  assumes "\<forall>k. 0 \<le> rnd k" and "i < n"
  shows "\<exists>row k'. weights_step rnd n i (W, k) = (W @ [row], k') \<and> good_row n i row"
proof -
  let ?row = "map (cell rnd k i) [0..<n]"
  let ?s = "sum_list ?row"
  have s: "1 \<le> ?s" using assms by (rule row_sum_pos)
  have ws: "weights_step rnd n i (W, k) = (W @ [map (\<lambda>w. w / ?s) ?row], k + min n (Suc i))"
    by (simp add: weights_step_def row_fold foldl_plus_sum_list del: map_map)
  have "sum_list (map (\<lambda>w. w / ?s) ?row) = ?s / ?s"
    by (rule sum_list_map_divide)
  then have "sum_list (map (\<lambda>w. w / ?s) ?row) = 1" using s by simp
  moreover have "\<forall>j<n. i < j \<longrightarrow> map (\<lambda>w. w / ?s) ?row ! j = 0"
    by (simp add: cell_def)
  ultimately have "good_row n i (map (\<lambda>w. w / ?s) ?row)"
    by (simp add: good_row_def)
  with ws show ?thesis by blast
qed

lemma weights_fold:
  assumes "\<forall>k. 0 \<le> rnd k" and "m \<le> n"
  shows "\<exists>W k. fold (weights_step rnd n) [0..<m] ([], 0) = (W, k) \<and> length W = m \<and>
           (\<forall>i<m. good_row n i (W ! i))"
  using assms(2)
proof (induction m)
  case 0
  show ?case by simp
next
  case (Suc m)
  then obtain W k where W: "fold (weights_step rnd n) [0..<m] ([], 0) = (W, k)" "length W = m"
     "\<forall>i<m. good_row n i (W ! i)" by auto
  from Suc.prems have "m < n" by simp
  with assms(1) obtain row k'
    where r: "weights_step rnd n m (W, k) = (W @ [row], k')" "good_row n m row"
    using weights_step_good by blast
  have "fold (weights_step rnd n) [0..<Suc m] ([], 0) = (W @ [row], k')"
    by (simp add: W r)
  moreover have "\<forall>i<Suc m. good_row n i ((W @ [row]) ! i)"
    using W r by (auto simp: nth_append less_Suc_eq)
  ultimately show ?case using W by auto
qed

text \<open>
  Claim C6: with \<open>Math.random\<close> returning numbers in \<open>[0, 1)\<close>, the matrix has \<open>n\<close> rows of \<open>n\<close>
  entries for \<open>n\<close> the smaller of the token count and \<open>attentionMaxTokens\<close>, every entry above
  the diagonal is 0 and every row sums to 1 (exactly, in real arithmetic).
\<close>

theorem generateAttentionWeights_causal_normalized:
  assumes "\<forall>k. 0 \<le> rnd k \<and> rnd k < 1"
  shows "let n = min (length toks) (attentionMaxTokens c);
             A = generateAttentionWeights c rnd toks
         in length A = n \<and>
            (\<forall>i<n. length (A ! i) = n \<and> (\<forall>j<n. i < j \<longrightarrow> A ! i ! j = 0) \<and>
                    sum_list (A ! i) = 1)"
proof -
  define n where "n = min (length toks) (attentionMaxTokens c)"
  from assms(1) have "\<forall>k. 0 \<le> rnd k" by simp
  then obtain W k where "fold (weights_step rnd n) [0..<n] ([], 0) = (W, k)" "length W = n"
    "\<forall>i<n. good_row n i (W ! i)"
    using weights_fold [of rnd n n] by auto
  then show ?thesis
    by (simp add: generateAttentionWeights_def n_def [symmetric] good_row_def Let_def)
qed

theorem generateAttentionWeights_causal_normalized_witness:
  "(\<forall>k::nat. (0::real) \<le> 0 \<and> (0::real) < 1) \<and>
   length (generateAttentionWeights CONFIG (\<lambda>k. 0) [BOS, str ''Hi'', EOS]) = 3 \<and>
   length (generateAttentionWeights CONFIG (\<lambda>k. 0) [BOS, str ''Hi'', EOS] ! 1) = 3 \<and>
   generateAttentionWeights CONFIG (\<lambda>k. 0) [BOS, str ''Hi'', EOS] ! 1 ! 2 = 0 \<and>
   sum_list (generateAttentionWeights CONFIG (\<lambda>k. 0) [BOS, str ''Hi'', EOS] ! 1) = 1"
proof -
  have h: "\<forall>k::nat. (0::real) \<le> (\<lambda>k. 0) k \<and> (\<lambda>k. 0) k < (1::real)" by simp
  have n: "min (length [BOS, str ''Hi'', EOS]) (attentionMaxTokens CONFIG) = 3"
    by (simp add: CONFIG_def)
  from generateAttentionWeights_causal_normalized [OF h, of "[BOS, str ''Hi'', EOS]" CONFIG]
  show ?thesis
    unfolding Let_def n by auto
qed

section \<open>Properties of the output distribution\<close>

text \<open>
  Claim C7: for a selected token that is not empty, the entries flagged selected are exactly one
  entry, whose token is the selected token, and the selected token is the token of exactly one
  entry of the list.
\<close>

theorem generateDistribution_selected_once:
  assumes "selectedToken \<noteq> []"
  shows "map token (filter selected (generateDistribution c r selectedToken)) = [selectedToken] \<and>
         length (filter (\<lambda>e. token e = selectedToken) (generateDistribution c r selectedToken)) = 1"
proof -
  define voc where
    "voc = (if selectedToken \<notin> set vocabulary then vocabulary[0 := selectedToken] else vocabulary)"
  define others where "others = filter (\<lambda>t. t \<noteq> selectedToken) voc"
  define m where "m = min (topKOutputTokens c - 1) (length others)"
  define rest where
    "rest = map (\<lambda>i. \<lparr>token = others ! i, probability = (1.0 - (0.3 + r * 0.3)) * 0.5 ^ (i + 1),
                      selected = False\<rparr>) [0..<m]"
  define first where
    "first = \<lparr>token = selectedToken, probability = 0.3 + r * 0.3, selected = True\<rparr>"
  have gd: "generateDistribution c r selectedToken = sort_key (\<lambda>e. - probability e) (first # rest)"
    using assms
    by (simp add: generateDistribution_def Let_def voc_def others_def m_def rest_def first_def)
  have nsel: "filter selected rest = []"
    by (simp add: rest_def)
  have "others ! i \<noteq> selectedToken" if "i < m" for i
  proof -
    from that have "i < length others" by (simp add: m_def)
    then have "others ! i \<in> set others" by simp
    then show ?thesis by (simp add: others_def)
  qed
  then have ntok: "filter (\<lambda>e. token e = selectedToken) rest = []"
    by (simp add: rest_def filter_empty_conv)
  have 1: "filter selected (generateDistribution c r selectedToken) = [first]"
    unfolding gd filter_sort by (simp add: nsel) (simp add: first_def)
  have 2: "filter (\<lambda>e. token e = selectedToken) (generateDistribution c r selectedToken) = [first]"
    unfolding gd filter_sort by (simp add: ntok) (simp add: first_def)
  show ?thesis unfolding 1 2 by (simp add: first_def)
qed

theorem generateDistribution_selected_once_witness:
  "str ''Hi'' \<noteq> [] \<and>
   map token (filter selected (generateDistribution CONFIG 0 (str ''Hi''))) = [str ''Hi''] \<and>
   length (filter (\<lambda>e. token e = str ''Hi'') (generateDistribution CONFIG 0 (str ''Hi''))) = 1"
proof -
  have h: "str ''Hi'' \<noteq> []" by simp
  from generateDistribution_selected_once [OF h, of CONFIG 0] h show ?thesis by simp
qed

section \<open>Properties of the streaming client\<close>

lemma token_reach_trans:
  "token_reach onToken s' s'' \<Longrightarrow> token_reach onToken s s' \<Longrightarrow> token_reach onToken s s''"
  by (induction rule: token_reach.induct) (auto intro: token_reach.intros)

lemma token_reach_invariant:
  assumes "token_reach onToken s s'" and "P s" and "\<And>v t. P t \<Longrightarrow> P (state_of (onToken v t))"
  shows "P s'"
  using assms by (induction rule: token_reach.induct) auto

lemma split_nl_nonempty [simp]: "split_nl t \<noteq> []"
  by (induction t) (auto split: list.splits)

lemma split_nl_append:
  "split_nl (a @ b) = butlast (split_nl a) @ split_nl (last (split_nl a) @ b)"
proof (induction a)
  case Nil
  show ?case by simp
next
  case (Cons c a)
  show ?case
  proof (cases "c = 10")
    case True
    with Cons show ?thesis by simp
  next
    case False
    obtain l ls where sp: "split_nl a = l # ls" by (cases "split_nl a") simp_all
    show ?thesis
    proof (cases ls)
      case Nil
      with sp Cons False show ?thesis by (simp split: list.splits)
    next
      case (Cons l' ls')
      with sp Cons.IH False show ?thesis by (simp split: list.splits)
    qed
  qed
qed

lemma complete_lines_append:
  "complete_lines (a @ b) = complete_lines a @ complete_lines (last (split_nl a) @ b)"
  by (simp add: complete_lines_def split_nl_append [of a b] butlast_append)

lemma try_token_char:
  "\<exists>s'. token_reach onToken s s' \<and>
     try_token parse onToken data (tr, s) =
       (tr @ map TokenEv (case data_token parse data of None \<Rightarrow> [] | Some c \<Rightarrow> [c]), s')"
proof (cases "parse data")
  case None
  then show ?thesis by (auto simp: try_token_def data_token_def intro: reach_refl)
next
  case (Some parsed)
  show ?thesis
  proof (cases "delta_content parsed")
    case None
    with Some show ?thesis
      by (cases parsed) (auto simp: try_token_def data_token_def intro: reach_refl)
  next
    case c: (Some content)
    have nn: "parsed \<noteq> JNull" using c by (auto simp: delta_content_def)
    show ?thesis
    proof (cases "truthy (Some content)")
      case False
      with Some c show ?thesis
        by (cases parsed) (auto simp: try_token_def data_token_def intro: reach_refl)
    next
      case True
      have r: "token_reach onToken s (state_of (onToken content s))"
        by (rule reach_step) (rule reach_refl)
      from Some c True nn r show ?thesis
        by (cases parsed; cases "onToken content s") (auto simp: try_token_def data_token_def)
    qed
  qed
qed

lemma process_line_char:
  "\<exists>s'. token_reach onToken s s' \<and>
     process_line parse onToken onComplete line (tr, s) =
       (if is_sentinel line then call_onComplete onComplete (tr, s')
        else Continue (tr @ map TokenEv (tokens_of parse [line]), s'))"
proof (cases "take 6 line = str ''data: ''")
  case False
  then show ?thesis
    by (auto simp: process_line_def is_sentinel_def tokens_of_def line_token_def
        List.map_filter_simps intro: reach_refl)
next
  case True
  show ?thesis
  proof (cases "is_sentinel line")
    case s: True
    with True show ?thesis
      by (auto simp: process_line_def is_sentinel_def Let_def intro: reach_refl)
  next
    case ns: False
    from try_token_char [of onToken s parse "trim (drop 6 line)" tr]
    obtain s' where "token_reach onToken s s'" and
      "try_token parse onToken (trim (drop 6 line)) (tr, s) =
       (tr @ map TokenEv (case data_token parse (trim (drop 6 line)) of None \<Rightarrow> [] | Some c \<Rightarrow> [c]), s')"
      by blast
    with True ns show ?thesis
      by (auto simp: process_line_def is_sentinel_def Let_def tokens_of_def line_token_def
          List.map_filter_simps split: option.splits)
  qed
qed

lemma tokens_of_append [simp]: "tokens_of parse (xs @ ys) = tokens_of parse xs @ tokens_of parse ys"
  by (simp add: tokens_of_def List.map_filter_def)

lemma tokens_of_Cons: "tokens_of parse (x # xs) = tokens_of parse [x] @ tokens_of parse xs"
  using tokens_of_append [of parse "[x]" xs] by simp

lemma tokens_of_Nil [simp]: "tokens_of parse [] = []"
  by (simp add: tokens_of_def List.map_filter_simps)

lemma process_lines_char:
  "\<exists>s'. token_reach onToken s s' \<and>
     process_lines parse onToken onComplete lines (tr, s) =
       (if has_done lines
        then call_onComplete onComplete (tr @ map TokenEv (tokens_of parse (lines_until_done lines)), s')
        else Continue (tr @ map TokenEv (tokens_of parse (lines_until_done lines)), s'))"
proof (induction lines arbitrary: tr s)
  case Nil
  show ?case by (auto simp: has_done_def lines_until_done_def intro: reach_refl)
next
  case (Cons line lines)
  from process_line_char [of onToken s parse onComplete line tr]
  obtain s1 where s1: "token_reach onToken s s1"
    "process_line parse onToken onComplete line (tr, s) =
       (if is_sentinel line then call_onComplete onComplete (tr, s1)
        else Continue (tr @ map TokenEv (tokens_of parse [line]), s1))" by blast
  show ?case
  proof (cases "is_sentinel line")
    case True
    have "process_lines parse onToken onComplete (line # lines) (tr, s) = call_onComplete onComplete (tr, s1)"
      using s1(2) True by (auto simp: call_onComplete_def split: outcome.splits)
    with True s1(1) show ?thesis
      by (auto simp: has_done_def lines_until_done_def)
  next
    case False
    from Cons.IH [of s1 "tr @ map TokenEv (tokens_of parse [line])"]
    obtain s2 where s2: "token_reach onToken s1 s2"
      "process_lines parse onToken onComplete lines (tr @ map TokenEv (tokens_of parse [line]), s1) =
       (if has_done lines
        then call_onComplete onComplete ((tr @ map TokenEv (tokens_of parse [line])) @ map TokenEv (tokens_of parse (lines_until_done lines)), s2)
        else Continue ((tr @ map TokenEv (tokens_of parse [line])) @ map TokenEv (tokens_of parse (lines_until_done lines)), s2))"
      by blast
    have r: "token_reach onToken s s2" using s2(1) s1(1) by (rule token_reach_trans)
    have u: "lines_until_done (line # lines) = line # lines_until_done lines"
      using False by (simp add: lines_until_done_def)
    have h: "has_done (line # lines) = has_done lines"
      using False by (simp add: has_done_def)
    have "process_lines parse onToken onComplete (line # lines) (tr, s) =
       process_lines parse onToken onComplete lines (tr @ map TokenEv (tokens_of parse [line]), s1)"
      using s1(2) False by simp
    with s2(2) r show ?thesis
      unfolding u h tokens_of_Cons [of parse line "lines_until_done lines"] by auto
  qed
qed

lemma call_onComplete_cases:
  "call_onComplete onComplete (tr, s) =
     (case onComplete s of Returns s' \<Rightarrow> Return (tr @ [CompleteEv], s')
      | Throws e s' \<Rightarrow> Raise e (tr @ [CompleteEv], s'))"
  by (simp add: call_onComplete_def)

lemma has_done_append: "has_done (xs @ ys) \<longleftrightarrow> has_done xs \<or> has_done ys"
  by (simp add: has_done_def list_ex_iff) blast

lemma lines_until_done_append:
  "lines_until_done (xs @ ys) =
     (if has_done xs then lines_until_done xs else xs @ lines_until_done ys)"
  by (auto simp: lines_until_done_def has_done_def list_ex_iff takeWhile_append)

lemma lines_until_done_id: "\<not> has_done xs \<Longrightarrow> lines_until_done xs = xs"
  by (simp add: lines_until_done_def has_done_def list_ex_iff)

text \<open>The loop over the reads does what one pass over the complete lines of the whole text does.\<close>

lemma split_nl_no_nl: "10 \<notin> set t \<Longrightarrow> split_nl t = [t]"
  by (induction t) auto

lemma last_split_nl_no_nl: "10 \<notin> set (last (split_nl t))"
proof (induction t)
  case Nil
  show ?case by simp
next
  case (Cons c t)
  obtain l ls where sp: "split_nl t = l # ls" by (cases "split_nl t") simp_all
  with Cons show ?case by (cases ls) auto
qed

lemma complete_lines_no_nl [simp]: "10 \<notin> set t \<Longrightarrow> complete_lines t = []"
  by (simp add: complete_lines_def split_nl_no_nl)

lemma read_loop_char:
  assumes "10 \<notin> set buffer"
  shows "\<exists>s'. token_reach onToken s s' \<and>
     read_loop parse onToken onComplete b buffer (tr, s) =
       (let lines = complete_lines (buffer @ received b);
            tr' = tr @ map TokenEv (tokens_of parse (lines_until_done lines))
        in if has_done lines then call_onComplete onComplete (tr', s')
           else case read_error b of
                  None \<Rightarrow> call_onComplete onComplete (tr', s')
                | Some e \<Rightarrow> Raise e (tr', s'))"
  using assms
proof (induction b arbitrary: buffer tr s)
  case EndOfStream
  then show ?case
    by (auto simp: has_done_def lines_until_done_def intro: reach_refl)
next
  case (ReadFails e)
  then show ?case
    by (auto simp: has_done_def lines_until_done_def intro: reach_refl)
next
  case (Chunk v rest)
  define lines1 where "lines1 = complete_lines (buffer @ v)"
  define buf1 where "buf1 = last (split_nl (buffer @ v))"
  define lines2 where "lines2 = complete_lines (buf1 @ received rest)"
  have all: "complete_lines (buffer @ received (Chunk v rest)) = lines1 @ lines2"
    using complete_lines_append [of "buffer @ v" "received rest"]
    by (simp add: lines1_def lines2_def buf1_def)
  from process_lines_char [of onToken s parse onComplete lines1 tr]
  obtain s1 where s1: "token_reach onToken s s1"
    "process_lines parse onToken onComplete lines1 (tr, s) =
       (if has_done lines1
        then call_onComplete onComplete (tr @ map TokenEv (tokens_of parse (lines_until_done lines1)), s1)
        else Continue (tr @ map TokenEv (tokens_of parse (lines_until_done lines1)), s1))"
    by blast
  have step: "read_loop parse onToken onComplete (Chunk v rest) buffer (tr, s) =
      (case process_lines parse onToken onComplete lines1 (tr, s) of
           Continue st' \<Rightarrow> read_loop parse onToken onComplete rest buf1 st'
         | Return st' \<Rightarrow> Return st'
         | Raise e st' \<Rightarrow> Raise e st')"
    unfolding lines1_def buf1_def complete_lines_def by (simp add: Let_def)
  show ?case
  proof (cases "has_done lines1")
    case True
    then have "read_loop parse onToken onComplete (Chunk v rest) buffer (tr, s) =
       call_onComplete onComplete (tr @ map TokenEv (tokens_of parse (lines_until_done lines1)), s1)"
      unfolding step using s1(2) by (simp add: call_onComplete_cases split: outcome.splits)
    with True s1(1) show ?thesis
      unfolding all Let_def by (auto simp: has_done_append lines_until_done_append)
  next
    case False
    define tr1 where "tr1 = tr @ map TokenEv (tokens_of parse lines1)"
    from False s1(2) have c: "process_lines parse onToken onComplete lines1 (tr, s) = Continue (tr1, s1)"
      by (simp add: tr1_def lines_until_done_id)
    have "10 \<notin> set buf1" unfolding buf1_def by (rule last_split_nl_no_nl)
    from Chunk.IH [OF this, of s1 tr1]
    obtain s2 where s2: "token_reach onToken s1 s2"
      "read_loop parse onToken onComplete rest buf1 (tr1, s1) =
       (let lines = complete_lines (buf1 @ received rest);
            tr' = tr1 @ map TokenEv (tokens_of parse (lines_until_done lines))
        in if has_done lines then call_onComplete onComplete (tr', s2)
           else case read_error rest of
                  None \<Rightarrow> call_onComplete onComplete (tr', s2)
                | Some e \<Rightarrow> Raise e (tr', s2))" by blast
    have r: "token_reach onToken s s2" using s2(1) s1(1) by (rule token_reach_trans)
    have eq: "tr @ map TokenEv (tokens_of parse (lines_until_done (lines1 @ lines2))) =
              tr1 @ map TokenEv (tokens_of parse (lines_until_done lines2))"
      using False by (simp add: lines_until_done_append tr1_def)
    have hd: "has_done (lines1 @ lines2) = has_done lines2"
      using False by (simp add: has_done_append)
    have "read_loop parse onToken onComplete (Chunk v rest) buffer (tr, s) =
          read_loop parse onToken onComplete rest buf1 (tr1, s1)"
      unfolding step c by simp
    also note s2(2)
    finally have "read_loop parse onToken onComplete (Chunk v rest) buffer (tr, s) =
       (if has_done lines2
        then call_onComplete onComplete
               (tr1 @ map TokenEv (tokens_of parse (lines_until_done lines2)), s2)
        else case read_error (Chunk v rest) of
               None \<Rightarrow> call_onComplete onComplete
                 (tr1 @ map TokenEv (tokens_of parse (lines_until_done lines2)), s2)
             | Some e \<Rightarrow> Raise e
                 (tr1 @ map TokenEv (tokens_of parse (lines_until_done lines2)), s2))"
      unfolding Let_def lines2_def [symmetric] by simp
    with r show ?thesis
      unfolding all Let_def hd eq by blast
  qed
qed


lemma stream_try_char:
  "\<exists>s'. token_reach onToken s s' \<and>
     stream_try parse onToken onComplete resp ([], s) =
       (case stream_result parse resp of
          (toks, None) \<Rightarrow> call_onComplete onComplete (map TokenEv toks, s')
        | (toks, Some e) \<Rightarrow> Raise e (map TokenEv toks, s'))"
proof (cases resp)
  case (Rejected e)
  then show ?thesis by (auto simp: stream_try_def intro: reach_refl)
next
  case (NotOk status t)
  then show ?thesis by (cases t) (auto simp: stream_try_def intro: reach_refl)
next
  case (OkNoBody e)
  then show ?thesis by (auto simp: stream_try_def intro: reach_refl)
next
  case (OkBody b)
  have "10 \<notin> set ([] :: jsstring)" by simp
  from read_loop_char [OF this, of onToken s parse onComplete b "[]"]
  obtain s' where "token_reach onToken s s'"
    "read_loop parse onToken onComplete b [] ([], s) =
       (let lines = complete_lines ([] @ received b);
            tr' = [] @ map TokenEv (tokens_of parse (lines_until_done lines))
        in if has_done lines then call_onComplete onComplete (tr', s')
           else case read_error b of
                  None \<Rightarrow> call_onComplete onComplete (tr', s')
                | Some e \<Rightarrow> Raise e (tr', s'))" by blast
  with OkBody show ?thesis
    by (auto simp: stream_try_def Let_def split: option.splits)
qed

lemma streamCompletion_char:
  "\<exists>s'. token_reach onToken s s' \<and>
     streamCompletion parse onToken onComplete onError resp s =
       (case stream_result parse resp of
          (toks, Some e) \<Rightarrow> (map TokenEv toks @ [ErrorEv e], onError e s')
        | (toks, None) \<Rightarrow>
            (case onComplete s' of
               Returns s'' \<Rightarrow> (map TokenEv toks @ [CompleteEv], Returns s'')
             | Throws e s'' \<Rightarrow> (map TokenEv toks @ [CompleteEv, ErrorEv e], onError e s'')))"
proof -
  from stream_try_char [of onToken s parse onComplete resp]
  obtain s' where r: "token_reach onToken s s'" and
    t: "stream_try parse onToken onComplete resp ([], s) =
       (case stream_result parse resp of
          (toks, None) \<Rightarrow> call_onComplete onComplete (map TokenEv toks, s')
        | (toks, Some e) \<Rightarrow> Raise e (map TokenEv toks, s'))" by blast
  obtain toks err where sr: "stream_result parse resp = (toks, err)"
    by (cases "stream_result parse resp")
  have "streamCompletion parse onToken onComplete onError resp s =
       (case stream_result parse resp of
          (toks, Some e) \<Rightarrow> (map TokenEv toks @ [ErrorEv e], onError e s')
        | (toks, None) \<Rightarrow>
            (case onComplete s' of
               Returns s'' \<Rightarrow> (map TokenEv toks @ [CompleteEv], Returns s'')
             | Throws e s'' \<Rightarrow> (map TokenEv toks @ [CompleteEv, ErrorEv e], onError e s'')))"
    unfolding streamCompletion_def t sr
    by (cases err; cases "onComplete s'") (simp_all add: call_onComplete_cases)
  with r show ?thesis by blast
qed

lemma no_terminal_tokens [simp]: "filter is_terminal (map TokenEv toks) = []"
  by (induction toks) simp_all

lemma count_complete_tokens [simp]: "count_list (map TokenEv toks) CompleteEv = 0"
  by (induction toks) simp_all

lemma client_scenario_C:
  "client_events hi_parse (OkBody scenario_C) = [TokenEv (JStr (str ''Hi'')), CompleteEv]"
  by (simp add: client_events_def streamCompletion_def stream_try_def scenario_C_def hi_parse_def
      hi_json_def process_line_def try_token_def call_onComplete_def ignore_token_def
      delta_content_def trim_def is_js_space_def Let_def)

lemma client_scenario_D:
  "client_events parse (NotOk 500 (Inr (str ''down''))) =
     [ErrorEv (JsError (str ''API Error: 500 - down''))]"
  by (simp add: client_events_def streamCompletion_def stream_try_def ignore_error_def)

text \<open>
  Claim C1, as the code has it: when \<open>onComplete\<close> returns normally whenever it is called, the
  client calls exactly one of \<open>onComplete\<close> and \<open>onError\<close>, as its last call, and every call
  before that one is a call of \<open>onToken\<close>. (The call of \<open>onComplete\<close> stands inside the \<open>try\<close>
  block, so an exception it throws is caught and handed to \<open>onError\<close>.)
\<close>

theorem streamCompletion_one_terminal:
  assumes "\<forall>s. returns (onComplete s)"
  shows "let tr = fst (streamCompletion parse onToken onComplete onError resp s)
         in length (filter is_terminal tr) = 1 \<and> is_terminal (last tr) \<and>
            filter is_terminal (butlast tr) = []"
proof -
  from streamCompletion_char [of onToken s parse onComplete onError resp]
  obtain s' where
    t: "streamCompletion parse onToken onComplete onError resp s =
       (case stream_result parse resp of
          (toks, Some e) \<Rightarrow> (map TokenEv toks @ [ErrorEv e], onError e s')
        | (toks, None) \<Rightarrow>
            (case onComplete s' of
               Returns s'' \<Rightarrow> (map TokenEv toks @ [CompleteEv], Returns s'')
             | Throws e s'' \<Rightarrow> (map TokenEv toks @ [CompleteEv, ErrorEv e], onError e s'')))" by blast
  obtain toks err where sr: "stream_result parse resp = (toks, err)"
    by (cases "stream_result parse resp")
  from assms have "returns (onComplete s')" by simp
  then obtain s'' where oc: "onComplete s' = Returns s''" by (cases "onComplete s'") simp_all
  show ?thesis
    unfolding t sr Let_def by (cases err) (simp_all add: oc butlast_append)
qed

theorem streamCompletion_one_terminal_witness:
  "(\<forall>s::unit. returns (Returns s)) \<and>
   fst (streamCompletion hi_parse ignore_token Returns ignore_error (OkBody scenario_C) ()) =
     [TokenEv (JStr (str ''Hi'')), CompleteEv] \<and>
   length (filter is_terminal
     (fst (streamCompletion hi_parse ignore_token Returns ignore_error (OkBody scenario_C) ()))) = 1"
  using streamCompletion_one_terminal
    [of Returns hi_parse ignore_token ignore_error "OkBody scenario_C" "()"]
  by (simp add: streamCompletion_def stream_try_def scenario_C_def hi_parse_def hi_json_def
      process_line_def try_token_def call_onComplete_def ignore_token_def delta_content_def
      trim_def is_js_space_def Let_def)

text \<open>
  With a completion callback that throws, on a stream that ends at once, the client calls
  \<open>onComplete\<close> and then \<open>onError\<close>.
\<close>

theorem streamCompletion_both_terminals_counterexample:
  "fst (streamCompletion hi_parse ignore_token throwing_onComplete ignore_error
          (OkBody EndOfStream) ()) =
     [CompleteEv, ErrorEv (JsError (str ''boom''))]"
  by (simp add: streamCompletion_def stream_try_def call_onComplete_def throwing_onComplete_def)

text \<open>
  Claim C10: when the reader reports \<open>done\<close> with no read failing and no complete line of the
  body being the sentinel, the client calls \<open>onToken\<close> for the complete lines received, then
  \<open>onComplete\<close>, and \<open>onComplete\<close> exactly once.
\<close>

theorem streamCompletion_completes_without_sentinel:
  assumes "read_error b = None" and "\<not> has_done (complete_lines (received b))"
  shows "let tr = fst (streamCompletion parse onToken onComplete onError (OkBody b) s);
             toks = tokens_of parse (complete_lines (received b))
         in take (Suc (length toks)) tr = map TokenEv toks @ [CompleteEv] \<and>
            count_list tr CompleteEv = 1"
proof -
  from streamCompletion_char [of onToken s parse onComplete onError "OkBody b"]
  obtain s' where
    t: "streamCompletion parse onToken onComplete onError (OkBody b) s =
       (case stream_result parse (OkBody b) of
          (toks, Some e) \<Rightarrow> (map TokenEv toks @ [ErrorEv e], onError e s')
        | (toks, None) \<Rightarrow>
            (case onComplete s' of
               Returns s'' \<Rightarrow> (map TokenEv toks @ [CompleteEv], Returns s'')
             | Throws e s'' \<Rightarrow> (map TokenEv toks @ [CompleteEv, ErrorEv e], onError e s'')))" by blast
  have sr: "stream_result parse (OkBody b) = (tokens_of parse (complete_lines (received b)), None)"
    using assms by (simp add: Let_def lines_until_done_id)
  show ?thesis
    unfolding t sr Let_def by (cases "onComplete s'") simp_all
qed

theorem streamCompletion_completes_without_sentinel_witness:
  "read_error no_sentinel_body = None \<and>
   \<not> has_done (complete_lines (received no_sentinel_body)) \<and>
   fst (streamCompletion hi_parse ignore_token Returns ignore_error (OkBody no_sentinel_body) ()) =
     [TokenEv (JStr (str ''Hi'')), CompleteEv] \<and>
   count_list
     (fst (streamCompletion hi_parse ignore_token Returns ignore_error (OkBody no_sentinel_body) ()))
     CompleteEv = 1"
  using streamCompletion_completes_without_sentinel
    [of no_sentinel_body hi_parse ignore_token Returns ignore_error "()"]
  by (simp add: streamCompletion_def stream_try_def no_sentinel_body_def hi_parse_def hi_json_def
      process_line_def try_token_def call_onComplete_def ignore_token_def delta_content_def
      trim_def is_js_space_def Let_def has_done_def complete_lines_def is_sentinel_def)

section \<open>Properties of the orchestrator\<close>

lemma error_event_tokens [simp]: "error_event (map TokenEv toks @ evs) = error_event evs"
  by (induction toks) simp_all

lemma client_events_char:
  "client_events parse resp =
     (case stream_result parse resp of
        (toks, Some e) \<Rightarrow> map TokenEv toks @ [ErrorEv e]
      | (toks, None) \<Rightarrow> map TokenEv toks @ [CompleteEv])"
proof -
  from streamCompletion_char [of ignore_token "()" parse Returns ignore_error resp]
  show ?thesis
    by (auto simp: client_events_def split: prod.splits option.splits)
qed

lemma error_event_client: "error_event (client_events parse resp) = snd (stream_result parse resp)"
  by (simp add: client_events_char split: prod.splits option.splits)

lemma app_onToken_settled:
  "settled (snd (state_of (app_onToken inp v t))) = settled (snd t)"
  by (cases t; cases v) (simp_all add: app_onToken_def Let_def)

lemma app_reach_settled:
  assumes "token_reach (app_onToken inp) s s'" and "settled (snd s) = None"
  shows "settled (snd s') = None"
  using assms(1) assms(2)
  by (rule token_reach_invariant) (simp add: app_onToken_settled)

lemma updateLayerStatus_simps [simp]:
  "layers (updateLayerStatus l st t a) l' =
     (if l' = l then \<lparr>layer_class = st, status_text = (if t \<noteq> [] then t else capitalized st)\<rparr>
      else layers a l')"
  "isProcessing (updateLayerStatus l st t a) = isProcessing a"
  "submit_disabled (updateLayerStatus l st t a) = submit_disabled a"
  "responseOutput (updateLayerStatus l st t a) = responseOutput a"
  "cursor_active (updateLayerStatus l st t a) = cursor_active a"
  "tokens (updateLayerStatus l st t a) = tokens a"
  by (simp_all add: updateLayerStatus_def)

text \<open>When the client throws inside its \<open>try\<close> block, the promise is rejected with that error.\<close>

lemma runOutputGeneration_error:
  assumes "snd (stream_result (JSON_parse inp) (fetch_response inp)) = Some e"
  shows "\<exists>a'. runOutputGeneration inp prompt a = Some (Throws e a') \<and>
           layers a' Output = \<lparr>layer_class = waiting, status_text = str ''Error''\<rparr>"
proof -
  define a0 where "a0 = (updateLayerStatus Output active (str ''Generating'') a)\<lparr>cursor_active := True\<rparr>"
  define g0 where "g0 = \<lparr>tokenCount = 0, firstToken = True, settled = None\<rparr>"
  obtain toks where sr: "stream_result (JSON_parse inp) (fetch_response inp) = (toks, Some e)"
    using assms by (cases "stream_result (JSON_parse inp) (fetch_response inp)") simp
  from streamCompletion_char [of "app_onToken inp" "(a0, g0)" "JSON_parse inp" app_onComplete
      app_onError "fetch_response inp"]
  obtain s' where r: "token_reach (app_onToken inp) (a0, g0) s'" and
    t: "streamCompletion (JSON_parse inp) (app_onToken inp) app_onComplete app_onError
          (fetch_response inp) (a0, g0) = (map TokenEv toks @ [ErrorEv e], app_onError e s')"
    by (auto simp: sr)
  obtain a1 g1 where s': "s' = (a1, g1)" by (cases s')
  have "settled (snd s') = None"
    using r by (rule app_reach_settled) (simp add: g0_def)
  then have g1: "settled g1 = None" by (simp add: s')
  have "runOutputGeneration inp prompt a =
        Some (Throws e (updateLayerStatus Output waiting (str ''Error'') a1))"
    unfolding runOutputGeneration_def Let_def a0_def [symmetric] g0_def [symmetric] t
    by (simp add: s' app_onError_def settle_def g1)
  then show ?thesis by simp
qed

lemma runOutputGeneration_complete:
  assumes "snd (stream_result (JSON_parse inp) (fetch_response inp)) = None"
  shows "\<exists>a'. runOutputGeneration inp prompt a = Some (Returns a')"
proof -
  define a0 where "a0 = (updateLayerStatus Output active (str ''Generating'') a)\<lparr>cursor_active := True\<rparr>"
  define g0 where "g0 = \<lparr>tokenCount = 0, firstToken = True, settled = None\<rparr>"
  obtain toks where sr: "stream_result (JSON_parse inp) (fetch_response inp) = (toks, None)"
    using assms by (cases "stream_result (JSON_parse inp) (fetch_response inp)") simp
  from streamCompletion_char [of "app_onToken inp" "(a0, g0)" "JSON_parse inp" app_onComplete
      app_onError "fetch_response inp"]
  obtain s' where r: "token_reach (app_onToken inp) (a0, g0) s'" and
    t: "streamCompletion (JSON_parse inp) (app_onToken inp) app_onComplete app_onError
          (fetch_response inp) (a0, g0) =
        (case app_onComplete s' of
               Returns s'' \<Rightarrow> (map TokenEv toks @ [CompleteEv], Returns s'')
             | Throws e s'' \<Rightarrow> (map TokenEv toks @ [CompleteEv, ErrorEv e], app_onError e s''))"
    by (auto simp: sr)
  obtain a1 g1 where s': "s' = (a1, g1)" by (cases s')
  have "settled (snd s') = None"
    using r by (rule app_reach_settled) (simp add: g0_def)
  then have g1: "settled g1 = None" by (simp add: s')
  show ?thesis
    unfolding runOutputGeneration_def Let_def a0_def [symmetric] g0_def [symmetric] t
    by (simp add: s' app_onComplete_def settle_def g1 Let_def)
qed

lemma reset_simps [simp]:
  "layers (reset a) l = \<lparr>layer_class = waiting, status_text = str ''Waiting''\<rparr>"
  "isProcessing (reset a) = False"
  by (cases l; simp add: reset_def Let_def)+


lemma run_stage_cases:
  "run_stage l busy anim done a =
     (case anim of
        Rejects e \<Rightarrow> Throws e (updateLayerStatus l active busy a)
      | Fulfils \<Rightarrow>
          Returns (updateLayerStatus l completed (done (updateLayerStatus l active busy a))
                     (updateLayerStatus l active busy a)))"
  by (simp add: run_stage_def Let_def)

text \<open>The first four stages leave the output layer's status alone.\<close>

lemma first_stages:
  "\<exists>a'. layers a' Output = layers a Output \<and>
     and_then (and_then (and_then (runTokenization inp prompt a) (runEmbeddings inp))
       (runAttention inp)) (runFFN inp) =
     (case tokenizer_animate inp of Rejects e \<Rightarrow> Throws e a' | Fulfils \<Rightarrow>
      case embeddings_animate inp of Rejects e \<Rightarrow> Throws e a' | Fulfils \<Rightarrow>
      case attention_animate inp of Rejects e \<Rightarrow> Throws e a' | Fulfils \<Rightarrow>
      case ffn_animate inp of Rejects e \<Rightarrow> Throws e a' | Fulfils \<Rightarrow> Returns a')"
  by (cases "tokenizer_animate inp"; cases "embeddings_animate inp";
      cases "attention_animate inp"; cases "ffn_animate inp")
     (simp_all add: runTokenization_def runEmbeddings_def runAttention_def runFFN_def
        run_stage_cases Let_def)

lemma try_block_error:
  assumes "stage_error inp = Some e"
    and "layers a Output = \<lparr>layer_class = waiting, status_text = str ''Waiting''\<rparr>"
  shows "\<exists>a'. try_block inp prompt a = Some (Throws e a') \<and>
           layer_class (layers a' Output) = waiting \<and>
           status_text (layers a' Output) \<in> {str ''Waiting'', str ''Error''}"
proof -
  from first_stages [of a inp prompt] obtain a1 where
    l: "layers a1 Output = layers a Output" and
    st: "and_then (and_then (and_then (runTokenization inp prompt a) (runEmbeddings inp))
       (runAttention inp)) (runFFN inp) =
     (case tokenizer_animate inp of Rejects e \<Rightarrow> Throws e a1 | Fulfils \<Rightarrow>
      case embeddings_animate inp of Rejects e \<Rightarrow> Throws e a1 | Fulfils \<Rightarrow>
      case attention_animate inp of Rejects e \<Rightarrow> Throws e a1 | Fulfils \<Rightarrow>
      case ffn_animate inp of Rejects e \<Rightarrow> Throws e a1 | Fulfils \<Rightarrow> Returns a1)" by blast
  show ?thesis
  proof (cases "tokenizer_animate inp = Fulfils \<and> embeddings_animate inp = Fulfils \<and>
                attention_animate inp = Fulfils \<and> ffn_animate inp = Fulfils")
    case True
    with assms(1) have "snd (stream_result (JSON_parse inp) (fetch_response inp)) = Some e"
      by (simp add: stage_error_def error_event_client)
    from runOutputGeneration_error [OF this, of prompt a1]
    obtain a' where "runOutputGeneration inp prompt a1 = Some (Throws e a')"
      "layers a' Output = \<lparr>layer_class = waiting, status_text = str ''Error''\<rparr>" by blast
    with True st show ?thesis by (simp add: try_block_def)
  next
    case False
    with assms(1) st have "try_block inp prompt a = Some (Throws e a1)"
      by (auto simp: try_block_def stage_error_def split: animation.splits)
    with l assms(2) show ?thesis by simp
  qed
qed

text \<open>
  Claim C4: when a run is started and one of its stages throws (a stage animation rejects, or
  the streaming client calls \<open>onError\<close>), \<open>process\<close> finishes, the response shows \<open>Error: \<close>
  followed by the message, the output layer is in the waiting state with the label \<open>Waiting\<close> or
  \<open>Error\<close>, the processing flag is false and the submit button is enabled.
\<close>

theorem process_error_restores_idle:
  assumes "\<not> isProcessing a" and "trim (input_value a) \<noteq> []" and "stage_error inp = Some e"
  shows "case process inp a of
           None \<Rightarrow> False
         | Some a' \<Rightarrow>
             responseOutput a' = str ''Error: '' @ message e \<and>
             layer_class (layers a' Output) = waiting \<and>
             status_text (layers a' Output) \<in> {str ''Waiting'', str ''Error''} \<and>
             \<not> isProcessing a' \<and> \<not> submit_disabled a'"
proof -
  define a1 where
    "a1 = (reset (a\<lparr>isProcessing := True, submit_disabled := True\<rparr>))
            \<lparr>submit_disabled := True, isProcessing := True\<rparr>"
  have "layers a1 Output = \<lparr>layer_class = waiting, status_text = str ''Waiting''\<rparr>"
    by (simp add: a1_def)
  from try_block_error [OF assms(3) this, of "trim (input_value a)"]
  obtain a2 where "try_block inp (trim (input_value a)) a1 = Some (Throws e a2)"
    "layer_class (layers a2 Output) = waiting"
    "status_text (layers a2 Output) \<in> {str ''Waiting'', str ''Error''}" by blast
  then show ?thesis
    using assms(1,2) by (simp add: process_def Let_def a1_def [symmetric])
qed

theorem process_error_restores_idle_witness:
  "\<not> isProcessing idle_app \<and> trim (input_value idle_app) \<noteq> [] \<and>
   stage_error (run_with (NotOk 500 (Inr (str ''down'')))) = Some (JsError (str ''API Error: 500 - down'')) \<and>
   (case process (run_with (NotOk 500 (Inr (str ''down'')))) idle_app of
           None \<Rightarrow> False
         | Some a' \<Rightarrow>
             responseOutput a' = str ''Error: API Error: 500 - down'' \<and>
             layer_class (layers a' Output) = waiting \<and>
             status_text (layers a' Output) \<in> {str ''Waiting'', str ''Error''} \<and>
             \<not> isProcessing a' \<and> \<not> submit_disabled a')"
proof -
  have 1: "\<not> isProcessing idle_app" by (simp add: idle_app_def)
  have 2: "trim (input_value idle_app) \<noteq> []"
    by (simp add: idle_app_def trim_def is_js_space_def)
  have 3: "stage_error (run_with (NotOk 500 (Inr (str ''down'')))) = Some (JsError (str ''API Error: 500 - down''))"
    by (simp add: stage_error_def run_with_def error_event_client)
  from process_error_restores_idle [OF 1 2 3] 1 2 3 show ?thesis by (simp split: option.splits)
qed

end
